theory Spec2Isabelle
  imports Main
begin

section \<open>CreateSectionTable.py: sections of an \<open>objdump -s\<close> dump\<close>

text \<open>
  The source is Python 2: a \<open>str\<close> is a byte string, modelled as \<open>string\<close> (a list of
  8-bit \<open>char\<close>s); integers are unbounded, modelled as \<open>int\<close>. Exceptions the code can
  raise are values of \<open>error\<close>; a function that can raise returns \<open>error + 'a\<close>.
  \<open>print\<close> statements have no effect on any result and are left out.
\<close>

datatype error = IndexError | TypeError | AssertionError

subsection \<open>Python primitives used by the source\<close>

text \<open>
  \<open>ord\<close> of a character of a byte string, and \<open>chr\<close>, which the source applies to the
  value of two hex digits only (below 256).
\<close>

definition py_ord :: "char \<Rightarrow> int" where
  "py_ord c = of_char c"

definition py_chr :: "int \<Rightarrow> char" where
  "py_chr n = char_of n"

text \<open>\<open>xs[i]\<close>: a negative index counts from the end, out of range raises.\<close>

definition py_index :: "'a list \<Rightarrow> int \<Rightarrow> error + 'a" where
  "py_index xs i =
     (if 0 \<le> i \<and> i < int (length xs) then Inr (xs ! nat i)
      else if i < 0 \<and> - int (length xs) \<le> i then Inr (xs ! nat (int (length xs) + i))
      else Inl IndexError)"

text \<open>\<open>xs[start:stop]\<close>, either bound possibly \<open>None\<close>: bounds are clamped, never raise.\<close>

definition py_slice :: "'a list \<Rightarrow> int option \<Rightarrow> int option \<Rightarrow> 'a list" where
  "py_slice xs start stop =
     (let n = int (length xs);
          lo = (case start of None \<Rightarrow> 0
                | Some i \<Rightarrow> if i < 0 then max (i + n) 0 else min i n);
          hi = (case stop of None \<Rightarrow> n
                | Some j \<Rightarrow> if j < 0 then max (j + n) 0 else min j n)
      in take (nat (hi - lo)) (drop (nat lo) xs))"

text \<open>\<open>pat in s\<close> on strings: \<open>pat\<close> occurs somewhere in \<open>s\<close>.\<close>

fun py_in :: "string \<Rightarrow> string \<Rightarrow> bool" where
  "py_in pat [] = (pat = [])"
| "py_in pat (c # cs) = (take (length pat) (c # cs) = pat \<or> py_in pat cs)"

text \<open>\<open>s.split("  ")[0]\<close>: the part of \<open>s\<close> before the first two consecutive spaces.\<close>

fun split_head :: "string \<Rightarrow> string" where
  "split_head (a # b # cs) =
     (if a = CHR '' '' \<and> b = CHR '' '' then [] else a # split_head (b # cs))"
| "split_head cs = cs"

text \<open>
  \<open>int(x, base=16)\<close>, on the strings the source passes to it: non-empty strings of
  the digits \<open>[0-9a-f]\<close>. The address token is one of the tokens that \<open>findall\<close>
  returns (lemma \<open>DATA_findall_tokens\<close> below), and \<open>hex_to_str\<close> passes slices of two
  characters of such a token or of its padding (lemma \<open>int16_arguments\<close>); so the
  \<open>ValueError\<close> of \<open>int\<close> cannot occur and is not modelled. Outside these strings
  \<open>int16\<close> says nothing about the source.
\<close>

definition is_hex :: "char \<Rightarrow> bool" where
  "is_hex c = (c \<in> set ''0123456789abcdef'')"

definition hex_digit :: "char \<Rightarrow> int" where
  "hex_digit c =
     (let n = py_ord c in if 48 \<le> n \<and> n \<le> 57 then n - 48 else n - 87)"

definition int16 :: "string \<Rightarrow> int" where
  "int16 x = foldl (\<lambda>v c. 16 * v + hex_digit c) 0 x"

text \<open>\<open>range(0, n, 2)\<close>.\<close>

definition range2 :: "nat \<Rightarrow> int list" where
  "range2 n = map (\<lambda>k. 2 * int k) [0..<(n + 1) div 2]"

subsection \<open>The two regular expressions of class Section\<close>

text \<open>
  \<open>SECTION_START_PATTERN = re.compile("Contents of section (.+?):")\<close>.
  \<open>lazy_group g s\<close> continues a match of \<open>(.+?):\<close> whose group already holds \<open>g\<close>
  (at least one character): the lazy quantifier tries the colon first and only then takes
  one more character, which \<open>.\<close> accepts unless it is a newline. \<open>SECTION_START_match\<close>
  matches the whole pattern at the start of a string and returns \<open>group(1)\<close>;
  \<open>SECTION_START_search\<close> is \<open>search\<close>: the match at the leftmost position that has one.
\<close>

fun lazy_group :: "string \<Rightarrow> string \<Rightarrow> string option" where
  "lazy_group g [] = None"
| "lazy_group g (c # cs) =
     (if c = CHR '':'' then Some g
      else if c = CHR 0x0A then None
      else lazy_group (g @ [c]) cs)"

definition SECTION_START_match :: "string \<Rightarrow> string option" where
  "SECTION_START_match s =
     (if take (length ''Contents of section '') s = ''Contents of section '' then
        (case drop (length ''Contents of section '') s of
           [] \<Rightarrow> None
         | c # cs \<Rightarrow> if c = CHR 0x0A then None else lazy_group [c] cs)
      else None)"

fun SECTION_START_search :: "string \<Rightarrow> string option" where
  "SECTION_START_search [] = None"
| "SECTION_START_search (c # cs) =
     (case SECTION_START_match (c # cs) of
        Some g \<Rightarrow> Some g
      | None \<Rightarrow> SECTION_START_search cs)"

text \<open>
  \<open>DATA_PATTERN = re.compile("([0-9a-f]{4,8})")\<close> and its \<open>findall\<close>: at each position
  the greedy quantifier takes as many hex digits as there are, up to eight; with four or
  more the token is recorded and the scan goes on behind it, with fewer the scan moves
  one character on.
\<close>

function DATA_findall :: "string \<Rightarrow> string list" where
  "DATA_findall [] = []"
| "DATA_findall (c # cs) =
     (let tok = takeWhile is_hex (take 8 (c # cs))
      in if 4 \<le> length tok then tok # DATA_findall (drop (length tok) (c # cs))
         else DATA_findall cs)"
  by pat_completeness auto
termination
  by (relation "measure length") auto

subsection \<open>class Section\<close>

record Section =
  name :: string
  start_address :: int
  data :: string

text \<open>
  The dictionary \<open>{"address": address, "section": section}\<close> of a query (the field
  for \<open>"section"\<close> is \<open>section_name\<close>).
\<close>

record key =
  address :: int
  section_name :: string

text \<open>\<open>Section.__contains__\<close>\<close>

definition contains :: "Section \<Rightarrow> key \<Rightarrow> bool" where
  "contains self item =
     (if (section_name item = name self \<or> section_name item = ''any'')
         \<and> (start_address self \<le> address item
            \<and> address item < start_address self + int (length (data self)))
      then True else False)"

text \<open>
  \<open>Section.__getitem__\<close>, one function for each kind of subscript: an integer, a slice.
\<close>

definition getitem_int :: "Section \<Rightarrow> int \<Rightarrow> error + char" where
  "getitem_int self item = py_index (data self) (item - start_address self)"

definition getitem_slice :: "Section \<Rightarrow> int option \<Rightarrow> int option \<Rightarrow> string" where
  "getitem_slice self start stop =
     py_slice (data self)
       (case start of None \<Rightarrow> None | Some a \<Rightarrow> Some (a - start_address self))
       (case stop of None \<Rightarrow> None | Some a \<Rightarrow> Some (a - start_address self))"

text \<open>\<open>hex_to_str\<close> and \<open>process_data_line\<close>, the local functions of \<open>parse_raw_data\<close>.\<close>

definition hex_to_str :: "string \<Rightarrow> string" where
  "hex_to_str x =
     (let hex_data = (if length x mod 2 = 1 then CHR ''0'' # x else x);
          len = length hex_data
      in map (\<lambda>i. py_chr (int16 (py_slice hex_data (Some i) (Some (i + 2)))))
           (range2 len))"

definition process_data_line :: "string \<Rightarrow> int \<times> string" where
  "process_data_line line_to_process =
     (let hex_part = split_head line_to_process;
          data_list = DATA_findall hex_part;
          addr = (case data_list of [] \<Rightarrow> - 1 | a # _ \<Rightarrow> int16 a)
      in (addr, concat (map hex_to_str (drop 1 data_list))))"

text \<open>
  The first loop of \<open>parse_raw_data\<close>: the name of the first header line and the lines
  behind it (\<open>raw_data[i + 1:]\<close>), or \<open>None\<close> when the loop ends without \<open>break\<close>.
\<close>

fun find_start :: "string list \<Rightarrow> (string \<times> string list) option" where
  "find_start [] = None"
| "find_start (line # rest) =
     (if py_in ''Contents of section '' line then
        (case SECTION_START_search line of
           Some g \<Rightarrow> Some (g, rest)
         | None \<Rightarrow> find_start rest)
      else find_start rest)"

text \<open>
  The second loop, over the lines behind the first data line: the data collected, and
  \<open>Some (raw_data[i:])\<close> when it leaves by \<open>break\<close> at line \<open>i\<close>, \<open>None\<close> when it runs
  to the end (then \<open>raw_data\<close> stays as it was before the loop).
\<close>

fun data_loop :: "string \<Rightarrow> string list \<Rightarrow> string \<times> string list option" where
  "data_loop dat [] = (dat, None)"
| "data_loop dat (line # rest) =
     (case process_data_line line of
        (addr, d) \<Rightarrow>
          if addr = - 1 then (dat, Some (line # rest))
          else data_loop (dat @ d) rest)"

text \<open>\<open>Section.parse_raw_data\<close>(\<open>raw_data[0]\<close> raises on an empty list).\<close>

definition parse_raw_data ::
  "string list \<Rightarrow> error + (Section option \<times> string list option)" where
  "parse_raw_data raw_data =
     (let (nm, raw1) = (case find_start raw_data of
                          Some (g, rest) \<Rightarrow> (g, rest)
                        | None \<Rightarrow> ('''', ['''']))
      in case raw1 of
           [] \<Rightarrow> Inl IndexError
         | first # raw2 \<Rightarrow>
             (let (addr, d) = process_data_line first;
                  (start, dat, raw3) =
                    (if addr \<noteq> - 1 then
                       (case data_loop ('''' @ d) raw2 of
                          (dat', None) \<Rightarrow> (addr, dat', raw2)
                        | (dat', Some r) \<Rightarrow> (addr, dat', r))
                     else (0, '''', []));
                  sect = (if start \<noteq> - 1
                          then Some \<lparr>name = nm, start_address = start, data = dat\<rparr>
                          else None);
                  unprocessed_data = (if length raw3 = 0 then None else Some raw3)
              in Inr (sect, unprocessed_data)))"

subsection \<open>class SectionTable\<close>

record SectionTable =
  table :: "Section option list"

text \<open>
  \<open>SectionTable.__init__\<close>, from the lines that \<open>readlines\<close> returned: the loop
  \<open>while raw_data: section, raw_data = Section.parse_raw_data(raw_data);
  self.table.append(section)\<close>. An exception of \<open>parse_raw_data\<close> leaves the
  constructor.
\<close>

function init_loop ::
  "Section option list \<Rightarrow> string list \<Rightarrow> error + Section option list" where
  "init_loop tbl raw_data =
     (if raw_data = [] then Inr tbl
      else case parse_raw_data raw_data of
             Inl e \<Rightarrow> Inl e
           | Inr (sect, None) \<Rightarrow> Inr (tbl @ [sect])
           | Inr (sect, Some rest) \<Rightarrow> init_loop (tbl @ [sect]) rest)"
  by pat_completeness auto
termination
proof (relation "measure (\<lambda>(tbl, raw_data). length raw_data)")
  show "wf (measure (\<lambda>(tbl, raw_data). length raw_data))"
    by simp
next
  fix tbl :: "Section option list" and raw_data x2 and x sect and xb rest
  assume ne: "raw_data \<noteq> []"
    and p: "parse_raw_data raw_data = Inr x2"
    and x2: "(sect, xb) = x2"
    and xb: "xb = Some rest"
  have loop: "length r \<le> length ls" if "data_loop dat ls = (dat', Some r)"
    for dat dat' r ls
    using that
  proof (induction ls arbitrary: dat)
    case Nil
    then show ?case by simp
  next
    case (Cons l ls)
    then show ?case
      by (cases "process_data_line l") (fastforce split: if_splits)
  qed
  have start: "length r < length ls" if "find_start ls = Some (g, r)" for g r ls
    using that by (induction ls) (auto split: if_splits option.splits)
  have "length rest < length raw_data"
  proof (cases "find_start raw_data")
    case None
    with p x2 xb show ?thesis
      by (auto simp: parse_raw_data_def Let_def split: prod.splits if_splits option.splits)
  next
    case (Some a)
    obtain g r where a: "a = (g, r)" by (cases a)
    from Some a have f: "find_start raw_data = Some (g, r)" by simp
    have lt: "length r < length raw_data" using start [OF f] .
    show ?thesis
    proof (cases r)
      case Nil
      with p f show ?thesis by (simp add: parse_raw_data_def)
    next
      case (Cons first raw2)
      obtain addr d where pd: "process_data_line first = (addr, d)"
        by (cases "process_data_line first")
      obtain dat' r' where dl: "data_loop d raw2 = (dat', r')"
        by (cases "data_loop d raw2")
      show ?thesis
      proof (cases r')
        case None
        with p x2 xb f Cons pd dl lt show ?thesis
          by (auto simp: parse_raw_data_def split: if_splits)
      next
        case (Some r'')
        with dl have "length r'' \<le> length raw2" using loop by blast
        with Some p x2 xb f Cons pd dl lt show ?thesis
          by (auto simp: parse_raw_data_def split: if_splits)
      qed
    qed
  qed
  then show "((tbl @ [sect], rest), (tbl, raw_data))
      \<in> measure (\<lambda>(tbl, raw_data). length raw_data)"
    by simp
qed

declare init_loop.simps [simp del]

definition SectionTable_init :: "string list \<Rightarrow> error + SectionTable" where
  "SectionTable_init raw_data =
     (case init_loop [] raw_data of
        Inl e \<Rightarrow> Inl e
      | Inr tbl \<Rightarrow> Inr \<lparr>table = tbl\<rparr>)"

text \<open>
  The inner loop of \<open>get_unsigned_int\<close>, \<open>for i in range(size)\<close>, over the indices
  still to visit; \<open>tmp[i]\<close> raises out of range, a third kind of \<open>endian\<close> fails the
  assertion (the interpreter is taken to run with assertions enabled, its default).
  \<open>x << n\<close> is \<open>push_bit n x\<close>.
\<close>

fun combine :: "string \<Rightarrow> int \<Rightarrow> string \<Rightarrow> int \<Rightarrow> int list \<Rightarrow> error + int" where
  "combine tmp sz endian val [] = Inr val"
| "combine tmp sz endian val (i # is) =
     (if endian = ''LE'' then
        (case py_index tmp i of
           Inl e \<Rightarrow> Inl e
         | Inr c \<Rightarrow> combine tmp sz endian (val + push_bit (nat (i * 8)) (py_ord c)) is)
      else if endian = ''BE'' then
        (case py_index tmp i of
           Inl e \<Rightarrow> Inl e
         | Inr c \<Rightarrow>
             combine tmp sz endian (val + push_bit (nat ((sz - i - 1) * 8)) (py_ord c)) is)
      else Inl AssertionError)"

text \<open>
  The loop over \<open>self.table\<close> of \<open>get_unsigned_int\<close>: \<open>key in section\<close> raises
  \<open>TypeError\<close> on an entry that is \<open>None\<close>; the \<open>else\<close> of the \<open>for\<close> gives
  \<open>None\<close> when the table is exhausted.
\<close>

fun get_unsigned_int_loop ::
  "Section option list \<Rightarrow> key \<Rightarrow> int \<Rightarrow> int \<Rightarrow> string \<Rightarrow> error + int option" where
  "get_unsigned_int_loop [] k addr sz endian = Inr None"
| "get_unsigned_int_loop (None # rest) k addr sz endian = Inl TypeError"
| "get_unsigned_int_loop (Some s # rest) k addr sz endian =
     (if contains s k then
        (let tmp = getitem_slice s (Some addr) (Some (addr + sz))
         in case combine tmp sz endian 0 (map int [0..<nat sz]) of
              Inl e \<Rightarrow> Inl e
            | Inr v \<Rightarrow> Inr (Some v))
      else get_unsigned_int_loop rest k addr sz endian)"

definition get_unsigned_int ::
  "SectionTable \<Rightarrow> string \<Rightarrow> int \<Rightarrow> int \<Rightarrow> string \<Rightarrow> error + int option" where
  "get_unsigned_int self sect addr sz endian =
     get_unsigned_int_loop (table self) \<lparr>address = addr, section_name = sect\<rparr>
       addr sz endian"

text \<open>
  The inner loop of \<open>get_string\<close>, \<open>for i, c in enumerate(value)\<close>, at index \<open>i\<close>
  with the characters from there on: \<open>value[:i]\<close> at the first NUL.
\<close>

fun cut_at_nul :: "string \<Rightarrow> nat \<Rightarrow> string \<Rightarrow> string" where
  "cut_at_nul val i [] = val"
| "cut_at_nul val i (c # cs) =
     (if c = CHR 0x00 then py_slice val None (Some (int i))
      else cut_at_nul val (Suc i) cs)"

fun get_string_loop :: "Section option list \<Rightarrow> key \<Rightarrow> int \<Rightarrow> error + string option" where
  "get_string_loop [] k addr = Inr None"
| "get_string_loop (None # rest) k addr = Inl TypeError"
| "get_string_loop (Some s # rest) k addr =
     (if contains s k then
        (let val = getitem_slice s (Some addr) None
         in Inr (Some (cut_at_nul val 0 val)))
      else get_string_loop rest k addr)"

definition get_string :: "SectionTable \<Rightarrow> string \<Rightarrow> int \<Rightarrow> error + string option" where
  "get_string self sect addr =
     get_string_loop (table self) \<lparr>address = addr, section_name = sect\<rparr> addr"

subsection \<open>The hex-dump format and the decoding as the spec words them\<close>

text \<open>
  The source only parses. To state what the spec says about decoding and about the round
  trip, the following definitions follow the spec's words, not the source; each has the
  prefix \<open>spec_\<close>. \<open>spec_decode_pairs\<close> decodes consecutive pairs of hex digits into
  bytes; \<open>spec_decode_line\<close> is the decoding of section 4.1 of the spec: all data tokens
  behind the address token concatenated into one hex string, which is left-padded with
  one \<open>0\<close> when its length is odd.
\<close>

fun spec_decode_pairs :: "string \<Rightarrow> string" where
  "spec_decode_pairs (a # b # cs) =
     py_chr (16 * hex_digit a + hex_digit b) # spec_decode_pairs cs"
| "spec_decode_pairs cs = []"

definition spec_decode_line :: "string \<Rightarrow> string" where
  "spec_decode_line line_to_process =
     (let hex_string = concat (drop 1 (DATA_findall (split_head line_to_process)))
      in spec_decode_pairs (if length hex_string mod 2 = 1 then CHR ''0'' # hex_string
                            else hex_string))"

text \<open>
  The input format of section 6 of the spec, as an encoder: a header line
  \<open>Contents of section <name>:\<close>, then data lines, each a hex address token and groups
  of bytes in lower-case hex, all preceded by one space, then two spaces and an ASCII
  rendering (any text). A data line is given as (address token, byte groups, rendering).
\<close>

definition spec_hex_char :: "nat \<Rightarrow> char" where
  "spec_hex_char n = ''0123456789abcdef'' ! n"

definition spec_hex_of_byte :: "char \<Rightarrow> string" where
  "spec_hex_of_byte c =
     [spec_hex_char (of_char c div 16), spec_hex_char (of_char c mod 16)]"

definition spec_hex_of_bytes :: "string \<Rightarrow> string" where
  "spec_hex_of_bytes g = concat (map spec_hex_of_byte g)"

definition spec_encode_data_line :: "string \<times> string list \<times> string \<Rightarrow> string" where
  "spec_encode_data_line l =
     (case l of (atok, groups, ascii) \<Rightarrow>
        concat (map (\<lambda>t. CHR '' '' # t) (atok # map spec_hex_of_bytes groups))
        @ ''  '' @ ascii @ [CHR 0x0A])"

definition spec_encode_section ::
  "string \<Rightarrow> (string \<times> string list \<times> string) list \<Rightarrow> string list" where
  "spec_encode_section nm ls =
     (''Contents of section '' @ nm @ '':'' @ [CHR 0x0A]) # map spec_encode_data_line ls"

section \<open>Properties\<close>

subsection \<open>Python primitives on non-negative indices\<close>

lemma py_slice_nat:
  "py_slice xs (Some (int i)) (Some (int j)) = take (j - i) (drop i xs)"
  by (cases "i \<le> length xs") (auto simp: py_slice_def Let_def min_def nat_diff_distrib')

lemma py_slice_from:
  "py_slice xs (Some (int i)) None = drop i xs"
  by (simp add: py_slice_def Let_def min_def)

lemma py_slice_upto:
  "py_slice xs None (Some (int j)) = take j xs"
  by (simp add: py_slice_def Let_def min_def)

lemma py_index_nat: "i < length xs \<Longrightarrow> py_index xs (int i) = Inr (xs ! i)"
  by (simp add: py_index_def)

lemma py_index_out: "length xs \<le> i \<Longrightarrow> py_index xs (int i) = Inl IndexError"
  by (simp add: py_index_def)

subsection \<open>Slices of a section\<close>

lemma slice_read:
  assumes "start_address s \<le> addr" and "0 \<le> sz"
  shows "getitem_slice s (Some addr) (Some (addr + sz)) =
         take (nat sz) (drop (nat (addr - start_address s)) (data s))"
proof -
  obtain off where off: "addr - start_address s = int off"
    using assms(1) by (metis diff_ge_0_iff_ge zero_le_imp_eq_int)
  obtain n where n: "sz = int n"
    using assms(2) by (metis zero_le_imp_eq_int)
  have "addr + sz - start_address s = int (off + n)"
    using off n by simp
  then have "getitem_slice s (Some addr) (Some (addr + sz)) =
      py_slice (data s) (Some (int off)) (Some (int (off + n)))"
    using off by (simp add: getitem_slice_def)
  also have "\<dots> = take n (drop off (data s))"
    by (simp only: py_slice_nat) simp
  finally show ?thesis using off n by simp
qed

lemma slice_tail:
  assumes "start_address s \<le> addr"
  shows "getitem_slice s (Some addr) None = drop (nat (addr - start_address s)) (data s)"
proof -
  obtain off where off: "addr - start_address s = int off"
    using assms by (metis diff_ge_0_iff_ge zero_le_imp_eq_int)
  then show ?thesis by (simp add: getitem_slice_def py_slice_from)
qed

lemma slice_short:
  assumes "start_address s \<le> addr"
    and "int (length (data s)) < addr - start_address s + sz"
    and "addr < start_address s + int (length (data s))"
  shows "length (getitem_slice s (Some addr) (Some (addr + sz))) < nat sz"
proof -
  obtain off where off: "addr - start_address s = int off"
    using assms(1) by (metis diff_ge_0_iff_ge zero_le_imp_eq_int)
  have "0 \<le> sz" using assms off by linarith
  then obtain n where n: "sz = int n" by (metis zero_le_imp_eq_int)
  have "addr + sz - start_address s = int (off + n)"
    using off n by simp
  then have "getitem_slice s (Some addr) (Some (addr + sz)) =
      py_slice (data s) (Some (int off)) (Some (int (off + n)))"
    using off by (simp add: getitem_slice_def)
  also have "\<dots> = take n (drop off (data s))"
    by (simp only: py_slice_nat) simp
  finally show ?thesis using off n assms by simp
qed

subsection \<open>The loops of the two queries\<close>

lemma get_unsigned_int_loop_skip:
  "\<forall>p\<in>set pre. \<not> contains p k \<Longrightarrow>
   get_unsigned_int_loop (map Some pre @ rest) k addr sz endian =
   get_unsigned_int_loop rest k addr sz endian"
  by (induction pre) simp_all

lemma get_string_loop_skip:
  "\<forall>p\<in>set pre. \<not> contains p k \<Longrightarrow>
   get_string_loop (map Some pre @ rest) k addr = get_string_loop rest k addr"
  by (induction pre) simp_all

lemma get_unsigned_int_loop_drop:
  "\<not> contains s k \<Longrightarrow>
   get_unsigned_int_loop (pre @ Some s # post) k addr sz endian =
   get_unsigned_int_loop (pre @ post) k addr sz endian"
proof (induction pre)
  case Nil
  then show ?case by simp
next
  case (Cons p pre)
  then show ?case by (cases p) simp_all
qed

lemma get_string_loop_drop:
  "\<not> contains s k \<Longrightarrow>
   get_string_loop (pre @ Some s # post) k addr = get_string_loop (pre @ post) k addr"
proof (induction pre)
  case Nil
  then show ?case by simp
next
  case (Cons p pre)
  then show ?case by (cases p) simp_all
qed

lemma cut_at_nul_takeWhile:
  "cut_at_nul (pre @ cs) (length pre) cs = pre @ takeWhile (\<lambda>c. c \<noteq> CHR 0x00) cs"
proof (induction cs arbitrary: pre)
  case Nil
  then show ?case by simp
next
  case (Cons c cs)
  show ?case
  proof (cases "c = CHR 0x00")
    case True
    then show ?thesis by (simp add: py_slice_upto)
  next
    case False
    have "cut_at_nul ((pre @ [c]) @ cs) (length (pre @ [c])) cs =
          (pre @ [c]) @ takeWhile (\<lambda>c. c \<noteq> CHR 0x00) cs"
      by (rule Cons.IH)
    with False show ?thesis by simp
  qed
qed

lemma cut_at_nul_whole: "cut_at_nul val 0 val = takeWhile (\<lambda>c. c \<noteq> CHR 0x00) val"
  using cut_at_nul_takeWhile [of "[]" val] by simp

lemma combine_LE:
  "\<forall>i\<in>set is. i < length tmp \<Longrightarrow>
   combine tmp sz ''LE'' val (map int is) =
   Inr (val + (\<Sum>i\<leftarrow>is. push_bit (i * 8) (py_ord (tmp ! i))))"
  by (induction "is" arbitrary: val) (simp_all add: py_index_nat nat_mult_distrib)

lemma combine_BE:
  "\<forall>i\<in>set is. i < length tmp \<and> i < n \<Longrightarrow>
   combine tmp (int n) ''BE'' val (map int is) =
   Inr (val + (\<Sum>i\<leftarrow>is. push_bit ((n - 1 - i) * 8) (py_ord (tmp ! i))))"
proof (induction "is" arbitrary: val)
  case Nil
  then show ?case by simp
next
  case (Cons i "is")
  then have "i < n" by simp
  then have "nat ((int n - int i - 1) * 8) = (n - 1 - i) * 8"
    by (simp add: nat_mult_distrib nat_diff_distrib') 
  with Cons show ?case by (simp add: py_index_nat)
qed

lemma combine_invalid_endian:
  "endian \<noteq> ''LE'' \<Longrightarrow> endian \<noteq> ''BE'' \<Longrightarrow>
   combine tmp sz endian val is = (if is = [] then Inr val else Inl AssertionError)"
  by (cases "is") simp_all

lemma combine_short:
  "endian = ''LE'' \<or> endian = ''BE'' \<Longrightarrow> j \<in> set is \<Longrightarrow> length tmp \<le> j \<Longrightarrow>
   combine tmp sz endian val (map int is) = Inl IndexError"
proof (induction "is" arbitrary: val)
  case Nil
  then show ?case by simp
next
  case (Cons i "is")
  show ?case
  proof (cases "i < length tmp")
    case True
    with Cons.prems have "j \<in> set is" by auto
    with Cons True show ?thesis by (auto simp: py_index_nat)
  next
    case False
    with Cons.prems(1) show ?thesis by (auto simp: py_index_out)
  qed
qed

lemma get_unsigned_int_loop_invalid_endian:
  assumes "endian \<noteq> ''LE''" and "endian \<noteq> ''BE''"
  shows "get_unsigned_int_loop (map Some secs) k addr sz endian =
     (if \<exists>p\<in>set secs. contains p k
      then (if 1 \<le> sz then Inl AssertionError else Inr (Some 0))
      else Inr None)"
proof (induction secs)
  case Nil
  then show ?case by simp
next
  case (Cons s secs)
  show ?case
  proof (cases "contains s k")
    case True
    have "(map int [0..<nat sz] = []) = (\<not> 1 \<le> sz)" by auto
    with True show ?thesis
      by (simp add: combine_invalid_endian [OF assms])
  next
    case False
    with Cons show ?thesis by simp
  qed
qed

subsection \<open>The table never holds None\<close>

text \<open>
  The conditional \<open>... if start_address != -1 else None\<close> of \<open>parse_raw_data\<close> never
  takes its \<open>None\<close> branch: \<open>start_address\<close> is 0 or an address that was compared
  with \<open>-1\<close> before. So every table that the constructor builds is a list of sections,
  and the theorems below speak about tables \<open>map Some secs\<close>.
\<close>

lemma parse_raw_data_section_Some:
  "parse_raw_data raw_data = Inr (sect, rest) \<Longrightarrow> sect \<noteq> None"
  by (auto simp: parse_raw_data_def Let_def split: option.splits list.splits prod.splits if_splits)

lemma init_loop_Nil: "init_loop tbl [] = Inr tbl"
  by (simp add: init_loop.simps)

lemma init_loop_Cons:
  "raw_data \<noteq> [] \<Longrightarrow>
   init_loop tbl raw_data =
     (case parse_raw_data raw_data of
        Inl e \<Rightarrow> Inl e
      | Inr (sect, None) \<Rightarrow> Inr (tbl @ [sect])
      | Inr (sect, Some rest) \<Rightarrow> init_loop (tbl @ [sect]) rest)"
  by (subst init_loop.simps) simp

lemma init_loop_no_None:
  "init_loop tbl raw_data = Inr t \<Longrightarrow> None \<notin> set tbl \<Longrightarrow> None \<notin> set t"
proof (induction tbl raw_data rule: init_loop.induct)
  case (1 tbl raw_data)
  show ?case
  proof (cases "raw_data = []")
    case True
    with "1.prems" show ?thesis by (simp add: init_loop_Nil)
  next
    case False
    show ?thesis
    proof (cases "parse_raw_data raw_data")
      case (Inl e)
      with False "1.prems" show ?thesis by (simp add: init_loop_Cons)
    next
      case (Inr x)
      obtain sect rest where x: "x = (sect, rest)" by (cases x)
      with Inr have ne: "sect \<noteq> None" using parse_raw_data_section_Some by blast
      show ?thesis
      proof (cases rest)
        case None
        with False Inr x ne "1.prems" show ?thesis
          by (auto simp: init_loop_Cons)
      next
        case (Some r)
        with False Inr x "1.prems" have "init_loop (tbl @ [sect]) r = Inr t"
          by (simp add: init_loop_Cons)
        moreover have "None \<notin> set (tbl @ [sect])" using ne "1.prems" by auto
        ultimately show ?thesis
          using "1.IH" [OF False Inr x [symmetric] Some] by blast
      qed
    qed
  qed
qed

lemma SectionTable_init_sections:
  assumes "SectionTable_init raw_data = Inr t"
  shows "\<exists>secs. table t = map Some secs"
proof -
  from assms obtain tbl where i: "init_loop [] raw_data = Inr tbl" and t: "t = \<lparr>table = tbl\<rparr>"
    by (auto simp: SectionTable_init_def split: sum.splits)
  from i have "None \<notin> set tbl" using init_loop_no_None by fastforce
  then have "tbl = map Some (map the tbl)"
    by (induction tbl) auto
  with t show ?thesis by (metis SectionTable.select_convs(1))
qed

lemma empty_not_contains: "data s = [] \<Longrightarrow> \<not> contains s k"
  by (simp add: contains_def)

lemma parse_no_header:
  "find_start raw_data = None \<Longrightarrow>
   parse_raw_data raw_data = Inr (Some \<lparr>name = '''', start_address = 0, data = ''''\<rparr>, None)"
  by (simp add: parse_raw_data_def process_data_line_def)

lemma parse_bad_first_line:
  "find_start raw_data = Some (g, first # rest) \<Longrightarrow> fst (process_data_line first) = - 1 \<Longrightarrow>
   parse_raw_data raw_data = Inr (Some \<lparr>name = g, start_address = 0, data = ''''\<rparr>, None)"
  by (cases "process_data_line first") (simp add: parse_raw_data_def)

subsection \<open>Tokens of a data line\<close>

lemma DATA_findall_skip: "\<not> is_hex c \<Longrightarrow> DATA_findall (c # s) = DATA_findall s"
  by simp

lemma DATA_findall_token:
  assumes "4 \<le> length t" and "length t \<le> 8" and "\<forall>c\<in>set t. is_hex c"
    and "rest = [] \<or> \<not> is_hex (hd rest)"
  shows "DATA_findall (t @ rest) = t # DATA_findall rest"
proof -
  obtain c cs where t: "t = c # cs" using assms(1) by (cases t) auto
  have a: "take 8 (t @ rest) = t @ take (8 - length t) rest"
    using assms(2) by simp
  have "takeWhile is_hex (take (8 - length t) rest) = []"
    using assms(4) by (cases rest; cases "8 - length t") auto
  then have "takeWhile is_hex (take 8 (t @ rest)) = t"
    using assms(3) by (simp only: a takeWhile_append2) simp
  then have "takeWhile is_hex (take 8 (c # cs @ rest)) = c # cs"
    using t by simp
  then have "DATA_findall (c # cs @ rest) = (c # cs) # DATA_findall (drop (length (c # cs)) (c # cs @ rest))"
    using assms(1) t by (simp only: DATA_findall.simps Let_def) simp
  then show ?thesis using t by simp
qed

lemma DATA_findall_tokens_spaced:
  "\<forall>t\<in>set toks. 4 \<le> length t \<and> length t \<le> 8 \<and> (\<forall>c\<in>set t. is_hex c) \<Longrightarrow>
   DATA_findall (concat (map (\<lambda>t. CHR '' '' # t) toks)) = toks"
proof (induction toks)
  case Nil
  then show ?case by simp
next
  case (Cons t toks)
  have sp: "\<not> is_hex CHR '' ''" by (simp add: is_hex_def)
  let ?rest = "concat (map (\<lambda>t. CHR '' '' # t) toks)"
  have r: "?rest = [] \<or> \<not> is_hex (hd ?rest)"
    using sp by (cases toks) auto
  have "DATA_findall (t @ ?rest) = t # DATA_findall ?rest"
    using Cons.prems r by (intro DATA_findall_token) auto
  with Cons sp show ?case by (simp add: DATA_findall_skip del: DATA_findall.simps)
qed

lemma DATA_findall_tokens:
  "\<forall>t\<in>set (DATA_findall s). 4 \<le> length t \<and> length t \<le> 8 \<and> (\<forall>c\<in>set t. is_hex c)"
proof (induction s rule: DATA_findall.induct)
  case 1
  then show ?case by simp
next
  case (2 c cs)
  define tok where "tok = takeWhile is_hex (take 8 (c # cs))"
  have eq: "DATA_findall (c # cs) =
     (if 4 \<le> length tok then tok # DATA_findall (drop (length tok) (c # cs))
      else DATA_findall cs)"
    unfolding tok_def by (simp only: DATA_findall.simps Let_def)
  have "length tok \<le> length (take 8 (c # cs))"
    unfolding tok_def by (rule length_takeWhile_le)
  then have l: "length tok \<le> 8" by simp
  have h: "\<forall>x\<in>set tok. is_hex x"
    unfolding tok_def by (auto dest: set_takeWhileD)
  show ?case
  proof (cases "4 \<le> length tok")
    case True
    have "\<forall>t\<in>set (DATA_findall (drop (length tok) (c # cs))).
            4 \<le> length t \<and> length t \<le> 8 \<and> (\<forall>c\<in>set t. is_hex c)"
      using "2.IH"(1) [OF tok_def True] .
    with True l h show ?thesis by (simp only: eq) simp
  next
    case False
    have "\<forall>t\<in>set (DATA_findall cs).
            4 \<le> length t \<and> length t \<le> 8 \<and> (\<forall>c\<in>set t. is_hex c)"
      using "2.IH"(2) [OF tok_def False] .
    with False show ?thesis by (simp only: eq) simp
  qed
qed

lemma split_head_token:
  "CHR '' '' \<notin> set t \<Longrightarrow> split_head (t @ rest) = t @ split_head rest"
proof (induction t)
  case Nil
  then show ?case by simp
next
  case (Cons c t)
  then show ?case by (cases "t @ rest") auto
qed

lemma split_head_space_token:
  "t \<noteq> [] \<Longrightarrow> CHR '' '' \<notin> set t \<Longrightarrow>
   split_head (CHR '' '' # t @ rest) = CHR '' '' # t @ split_head rest"
  using split_head_token [of t rest] by (cases t) auto

lemma split_head_tokens:
  "\<forall>t\<in>set toks. t \<noteq> [] \<and> CHR '' '' \<notin> set t \<Longrightarrow>
   split_head (concat (map (\<lambda>t. CHR '' '' # t) toks) @ rest) =
   concat (map (\<lambda>t. CHR '' '' # t) toks) @ split_head rest"
  by (induction toks) (simp_all add: split_head_space_token)

lemma hex_digit_nonneg: "is_hex c \<Longrightarrow> 0 \<le> hex_digit c"
  by (auto simp: is_hex_def hex_digit_def py_ord_def)

lemma int16_nonneg: "\<forall>c\<in>set t. is_hex c \<Longrightarrow> 0 \<le> int16 t"
proof -
  have "0 \<le> v \<Longrightarrow> \<forall>c\<in>set t. is_hex c \<Longrightarrow> 0 \<le> foldl (\<lambda>v c. 16 * v + hex_digit c) v t" for v
    by (induction t arbitrary: v) (simp_all add: hex_digit_nonneg)
  then show "\<forall>c\<in>set t. is_hex c \<Longrightarrow> 0 \<le> int16 t" by (simp add: int16_def)
qed

lemma process_data_line_address:
  "fst (process_data_line l) = - 1 \<or> 0 \<le> fst (process_data_line l)"
proof (cases "DATA_findall (split_head l)")
  case Nil
  then show ?thesis by (simp add: process_data_line_def)
next
  case (Cons a as)
  then have "a \<in> set (DATA_findall (split_head l))" by simp
  then have "\<forall>c\<in>set a. is_hex c" using DATA_findall_tokens by blast
  then have "0 \<le> int16 a" by (rule int16_nonneg)
  with Cons show ?thesis by (simp add: process_data_line_def)
qed

lemma py_slice_set: "set (py_slice xs a b) \<subseteq> set xs"
  by (auto simp: py_slice_def Let_def dest: in_set_takeD in_set_dropD)

lemma int16_arguments:
  assumes "\<forall>c\<in>set t. is_hex c"
    and "x = (if length t mod 2 = 1 then CHR ''0'' # t else t)"
    and "i \<in> set (range2 (length x))"
  shows "py_slice x (Some i) (Some (i + 2)) \<noteq> []
       \<and> (\<forall>c\<in>set (py_slice x (Some i) (Some (i + 2))). is_hex c)"
proof -
  have "is_hex CHR ''0''" by (simp add: is_hex_def)
  with assms(1,2) have hx: "\<forall>c\<in>set x. is_hex c" by (auto split: if_splits)
  from assms(3) obtain k where k: "i = int (2 * k)" and lt: "2 * k < length x"
    by (auto simp: range2_def)
  have "i + 2 = int (2 * k + 2)" using k by simp
  then have "py_slice x (Some i) (Some (i + 2)) = take 2 (drop (2 * k) x)"
    using py_slice_nat [of x "2 * k" "2 * k + 2"] k by (simp add: add.commute)
  moreover have "take 2 (drop (2 * k) x) \<noteq> []" using lt by simp
  ultimately have "py_slice x (Some i) (Some (i + 2)) \<noteq> []" by simp
  moreover have "\<forall>c\<in>set (py_slice x (Some i) (Some (i + 2))). is_hex c"
    using hx py_slice_set [of x "Some i" "Some (i + 2)"] by blast
  ultimately show ?thesis by blast
qed

subsection \<open>Decoding of hex tokens\<close>

lemma range2_Suc_Suc: "range2 (Suc (Suc n)) = 0 # map (\<lambda>i. i + 2) (range2 n)"
proof -
  have "[0..<Suc ((n + 1) div 2)] = 0 # map Suc [0..<(n + 1) div 2]"
    by (simp add: upt_conv_Cons map_Suc_upt del: upt_Suc)
  then show ?thesis by (simp add: range2_def comp_def del: upt_Suc)
qed

lemma py_slice_Cons2:
  "0 \<le> i \<Longrightarrow>
   py_slice (a # b # cs) (Some (i + 2)) (Some (4 + i)) = py_slice cs (Some i) (Some (i + 2))"
proof -
  assume "0 \<le> i"
  then obtain k where k: "i = int k" by (metis zero_le_imp_eq_int)
  have "py_slice (a # b # cs) (Some (int (k + 2))) (Some (int (k + 4))) =
        py_slice cs (Some (int k)) (Some (int (k + 2)))"
    by (simp only: py_slice_nat) simp
  then show ?thesis using k by (simp add: add.commute)
qed

lemma range2_nonneg: "\<forall>i\<in>set (range2 n). 0 \<le> i"
  by (simp add: range2_def)

lemma hex_pairs_map:
  "map (\<lambda>i. py_chr (int16 (py_slice x (Some i) (Some (i + 2))))) (range2 (length x)) = spec_decode_pairs x" if "even (length x)"
  using that
proof (induction x rule: spec_decode_pairs.induct)
  case (1 a b cs)
  have h: "py_slice (a # b # cs) (Some 0) (Some 2) = [a, b]"
    using py_slice_nat [of "a # b # cs" 0 2] by simp
  have "map (\<lambda>i. py_chr (int16 (py_slice (a # b # cs) (Some (i + 2)) (Some (i + 2 + 2))))) (range2 (length cs))
      = map (\<lambda>i. py_chr (int16 (py_slice cs (Some i) (Some (i + 2))))) (range2 (length cs))"
    using range2_nonneg [of "length cs"] by (intro map_cong) (auto simp: py_slice_Cons2)
  with 1 h show ?case
    by (simp add: range2_Suc_Suc comp_def int16_def)
qed (simp_all add: range2_def)

lemma hex_to_str_pairs:
  "hex_to_str x = spec_decode_pairs (if length x mod 2 = 1 then CHR ''0'' # x else x)"
proof (cases "length x mod 2 = 1")
  case True
  then have "even (length (CHR ''0'' # x))" by simp presburger
  from hex_pairs_map [OF this] True show ?thesis by (simp add: hex_to_str_def)
next
  case False
  then have "even (length x)" by presburger
  from hex_pairs_map [OF this] False show ?thesis by (simp add: hex_to_str_def)
qed

lemma process_data_line_tokens:
  "snd (process_data_line l) =
   concat (map (\<lambda>t. spec_decode_pairs (if length t mod 2 = 1 then CHR ''0'' # t else t))
             (drop 1 (DATA_findall (split_head l))))"
proof -
  have "hex_to_str = (\<lambda>t. spec_decode_pairs (if length t mod 2 = 1 then CHR ''0'' # t else t))"
    by (rule ext) (rule hex_to_str_pairs)
  then show ?thesis
    by (simp only: process_data_line_def Let_def snd_conv)
qed

lemma hex_chars: "\<forall>n\<in>set [0..<16]. is_hex (spec_hex_char n) \<and> hex_digit (spec_hex_char n) = int n"
  by code_simp

lemma hex_digit_hex_char: "n < 16 \<Longrightarrow> hex_digit (spec_hex_char n) = int n"
  using hex_chars by simp

lemma is_hex_hex_char: "n < 16 \<Longrightarrow> is_hex (spec_hex_char n)"
  using hex_chars by simp

lemma decode_hex_of_byte:
  "spec_decode_pairs (spec_hex_of_byte c @ cs) = c # spec_decode_pairs cs"
proof -
  have b: "of_char c < (256::nat)" by simp
  then have lt: "of_char c div 16 < (16::nat)" by (simp add: less_mult_imp_div_less)
  have "16 * int (of_char c div 16) + int (of_char c mod 16) = int (of_char c)"
    by (simp add: zdiv_int zmod_int)
  then have "py_chr (16 * int (of_char c div 16) + int (of_char c mod 16)) = c"
    by (simp add: py_chr_def)
  with lt show ?thesis
    by (simp add: spec_hex_of_byte_def hex_digit_hex_char)
qed

lemma decode_hex_of_bytes: "spec_decode_pairs (spec_hex_of_bytes g) = g"
  by (induction g) (simp_all add: spec_hex_of_bytes_def decode_hex_of_byte)

lemma length_hex_of_bytes: "length (spec_hex_of_bytes g) = 2 * length g"
  by (induction g) (simp_all add: spec_hex_of_bytes_def spec_hex_of_byte_def)

lemma is_hex_hex_of_bytes: "\<forall>c\<in>set (spec_hex_of_bytes g). is_hex c"
proof -
  have "of_char c div 16 < (16::nat)" for c :: char
    using nat_of_char_less_256 [of c] by (simp add: less_mult_imp_div_less)
  then show ?thesis
    by (auto simp: spec_hex_of_bytes_def spec_hex_of_byte_def is_hex_hex_char)
qed

lemma hex_to_str_hex_of_bytes: "hex_to_str (spec_hex_of_bytes g) = g"
  by (simp add: hex_to_str_pairs length_hex_of_bytes decode_hex_of_bytes)

subsection \<open>Parsing an encoded section\<close>

lemma process_encoded_line:
  assumes a: "4 \<le> length atok" "length atok \<le> 8" "\<forall>c\<in>set atok. is_hex c"
    and g: "\<forall>g\<in>set groups. 2 \<le> length g \<and> length g \<le> 4"
  shows "process_data_line (spec_encode_data_line (atok, groups, ascii)) =
         (int16 atok, concat groups)"
proof -
  let ?toks = "atok # map spec_hex_of_bytes groups"
  have sp: "\<not> is_hex CHR '' ''" by (simp add: is_hex_def)
  have tok: "\<forall>t\<in>set ?toks. 4 \<le> length t \<and> length t \<le> 8 \<and> (\<forall>c\<in>set t. is_hex c)"
    using a g by (auto simp: length_hex_of_bytes is_hex_hex_of_bytes)
  then have "\<forall>t\<in>set ?toks. t \<noteq> [] \<and> CHR '' '' \<notin> set t"
    using sp by fastforce
  then have "split_head (concat (map (\<lambda>t. CHR '' '' # t) ?toks) @ ''  '' @ ascii @ [CHR 0x0A]) =
             concat (map (\<lambda>t. CHR '' '' # t) ?toks) @ split_head (''  '' @ ascii @ [CHR 0x0A])"
    by (rule split_head_tokens)
  then have "split_head (spec_encode_data_line (atok, groups, ascii)) =
             concat (map (\<lambda>t. CHR '' '' # t) ?toks)"
    by (simp add: spec_encode_data_line_def)
  moreover have "DATA_findall (concat (map (\<lambda>t. CHR '' '' # t) ?toks)) = ?toks"
    using tok by (rule DATA_findall_tokens_spaced)
  ultimately have "DATA_findall (split_head (spec_encode_data_line (atok, groups, ascii))) = ?toks"
    by simp
  moreover have "concat (map hex_to_str (map spec_hex_of_bytes groups)) = concat groups"
    by (simp add: comp_def hex_to_str_hex_of_bytes)
  ultimately show ?thesis
    by (simp add: process_data_line_def)
qed

lemma lazy_group_colon:
  "CHR '':'' \<notin> set m \<Longrightarrow> CHR 0x0A \<notin> set m \<Longrightarrow>
   lazy_group g (m @ CHR '':'' # tail) = Some (g @ m)"
  by (induction m arbitrary: g) auto

lemma search_header:
  assumes "nm \<noteq> []" and "CHR 0x0A \<notin> set nm" and "CHR '':'' \<notin> set (tl nm)"
  shows "SECTION_START_search (''Contents of section '' @ nm @ '':'' @ tail) = Some nm"
proof -
  obtain c m where nm: "nm = c # m" using assms(1) by (cases nm) auto
  have "lazy_group [c] (m @ CHR '':'' # tail) = Some ([c] @ m)"
    using assms nm by (intro lazy_group_colon) auto
  then have "SECTION_START_match (''Contents of section '' @ nm @ '':'' @ tail) = Some nm"
    using assms nm by (auto simp: SECTION_START_match_def)
  then show ?thesis by simp
qed

lemma py_in_prefix: "pat \<noteq> [] \<Longrightarrow> py_in pat (pat @ s)"
  by (cases pat) auto

lemma find_start_found:
  "py_in ''Contents of section '' line \<Longrightarrow> SECTION_START_search line = Some g \<Longrightarrow>
   find_start (line # rest) = Some (g, rest)"
  by simp

lemma find_start_header:
  assumes "nm \<noteq> []" and "CHR 0x0A \<notin> set nm" and "CHR '':'' \<notin> set (tl nm)"
  shows "find_start ((''Contents of section '' @ nm @ '':'' @ tail) # rest) = Some (nm, rest)"
proof -
  have "''Contents of section '' \<noteq> []" by simp
  then have "py_in ''Contents of section '' (''Contents of section '' @ nm @ '':'' @ tail)"
    by (rule py_in_prefix)
  then show ?thesis
    using search_header [OF assms, of tail] by (rule find_start_found)
qed

lemma data_loop_encoded:
  assumes "\<forall>(atok, groups, ascii)\<in>set ls.
             4 \<le> length atok \<and> length atok \<le> 8 \<and> (\<forall>c\<in>set atok. is_hex c)
             \<and> (\<forall>g\<in>set groups. 2 \<le> length g \<and> length g \<le> 4)"
  shows "data_loop dat (map spec_encode_data_line ls) =
         (dat @ concat (map (\<lambda>(atok, groups, ascii). concat groups) ls), None)"
  using assms
proof (induction ls arbitrary: dat)
  case Nil
  then show ?case by simp
next
  case (Cons l ls)
  obtain atok groups ascii where l: "l = (atok, groups, ascii)" by (cases l)
  with Cons.prems have p: "process_data_line (spec_encode_data_line l) = (int16 atok, concat groups)"
    by (simp add: process_encoded_line)
  from l Cons.prems have "0 \<le> int16 atok" by (simp add: int16_nonneg)
  then have "int16 atok \<noteq> - 1" by simp
  with p l Cons show ?case by simp
qed

lemma tokens_of_spaced_line:
  assumes "\<forall>t\<in>set toks. 4 \<le> length t \<and> length t \<le> 8 \<and> (\<forall>c\<in>set t. is_hex c)"
  shows "DATA_findall (split_head (concat (map (\<lambda>t. CHR '' '' # t) toks))) = toks"
proof -
  have sp: "\<not> is_hex CHR '' ''" by (simp add: is_hex_def)
  have "\<forall>t\<in>set toks. t \<noteq> [] \<and> CHR '' '' \<notin> set t"
    using assms sp by fastforce
  then have "split_head (concat (map (\<lambda>t. CHR '' '' # t) toks) @ []) =
             concat (map (\<lambda>t. CHR '' '' # t) toks) @ split_head []"
    by (rule split_head_tokens)
  then show ?thesis
    using DATA_findall_tokens_spaced [OF assms] by simp
qed

lemma odd_token_zero_padded:
  assumes a: "4 \<le> length a \<and> length a \<le> 8 \<and> (\<forall>c\<in>set a. is_hex c)"
    and t: "4 \<le> length t \<and> length t \<le> 7 \<and> (\<forall>c\<in>set t. is_hex c)"
    and odd: "length t mod 2 = 1"
  shows "snd (process_data_line (CHR '' '' # a @ CHR '' '' # t)) =
           spec_decode_pairs (CHR ''0'' # t)"
    and "snd (process_data_line (CHR '' '' # a @ CHR '' '' # CHR ''0'' # t)) =
           spec_decode_pairs (CHR ''0'' # t)"
proof -
  have z: "is_hex CHR ''0''" by (simp add: is_hex_def)
  have "DATA_findall (split_head (concat (map (\<lambda>t. CHR '' '' # t) [a, t]))) = [a, t]"
    using a t by (intro tokens_of_spaced_line) auto
  then show "snd (process_data_line (CHR '' '' # a @ CHR '' '' # t)) =
           spec_decode_pairs (CHR ''0'' # t)"
    using odd by (simp add: process_data_line_tokens del: split_head.simps DATA_findall.simps)
  have even: "length (CHR ''0'' # t) mod 2 \<noteq> 1"
    using odd by simp presburger
  have "DATA_findall (split_head (concat (map (\<lambda>t. CHR '' '' # t) [a, CHR ''0'' # t]))) =
        [a, CHR ''0'' # t]"
    using a t z by (intro tokens_of_spaced_line) auto
  then show "snd (process_data_line (CHR '' '' # a @ CHR '' '' # CHR ''0'' # t)) =
           spec_decode_pairs (CHR ''0'' # t)"
    using even
    by (simp add: process_data_line_tokens del: split_head.simps DATA_findall.simps)
qed

subsection \<open>Claims\<close>

text \<open>
  C1 (the code departs from the claim). The claim: when a header line is found and the
  first line behind it yields no address token, \<open>parse_raw_data\<close> returns none for the
  section. The code tests \<open>start_address != -1\<close>, but the failure marker \<open>-1\<close> is held
  by \<open>address\<close> and \<open>start_address\<close> is still 0: on the header \<open>.text\<close> followed by the
  line \<open>zz\<close> it returns a constructed Section with start address 0 and no data.
\<close>

theorem parse_raw_data_bad_first_line:
  "parse_raw_data [''Contents of section .text:'' @ [CHR 0x0A], ''zz'' @ [CHR 0x0A]] =
     Inr (Some \<lparr>name = ''.text'', start_address = 0, data = ''''\<rparr>, None)"
  by code_simp

text \<open>
  C2, as stated, fails. The code pads each token on its own, not the concatenated
  string: on the tokens \<open>1234\<close> and \<open>abcde\<close> it yields the bytes 12 34 0a bc de, the
  decoding of the spec 01 23 4a bc de. The string \<open>abc\<close> is no token of \<open>[0-9a-f]{4,8}\<close>
  and yields no data, \<open>0abc\<close> yields 0a bc. And the round trip fails on the five
  bytes of \<open>hello\<close>, encoded in groups of four: the code returns \<open>hell\<close>. This last
  loss is a defect of the code, whose header comment and docstring say that it processes
  the output of \<open>objdump -s\<close>, and is no part of the amended claim.
\<close>

theorem hex_decoding_counterexample:
  "snd (process_data_line '' 1000 1234 abcde'') =
     [CHR 0x12, CHR 0x34, CHR 0x0A, CHR 0xBC, CHR 0xDE]
   \<and> spec_decode_line '' 1000 1234 abcde'' =
     [CHR 0x01, CHR 0x23, CHR 0x4A, CHR 0xBC, CHR 0xDE]
   \<and> snd (process_data_line '' 1000 abc'') = []
   \<and> snd (process_data_line '' 1000 0abc'') = [CHR 0x0A, CHR 0xBC]
   \<and> spec_encode_section ''.rodata'' [(''3f400000'', [''hell'', ''o''], ''hello'')] =
     [''Contents of section .rodata:'' @ [CHR 0x0A],
      '' 3f400000 68656c6c 6f  hello'' @ [CHR 0x0A]]
   \<and> parse_raw_data
       [''Contents of section .rodata:'' @ [CHR 0x0A],
        '' 3f400000 68656c6c 6f  hello'' @ [CHR 0x0A]] =
     Inr (Some \<lparr>name = ''.rodata'', start_address = 0x3f400000, data = ''hell''\<rparr>, None)"
  by code_simp

text \<open>
  C2 (amended). Hex data decoding decodes each data token that the parser finds behind
  the address token on its own: a token of odd length is left-padded with one \<open>0\<close>,
  consecutive pairs of hex digits become bytes, and the bytes of the tokens are
  concatenated in order; a token of five or seven hex digits such as \<open>abcde\<close> decodes as
  if it were \<open>0abcde\<close>. Consequently a section encoded as a header line and at least
  one data line, each of an address token of 4 to 8 hex digits and groups of two to four
  bytes, is parsed back to a section of that name, the first address and exactly the
  bytes of all groups in order. Nothing is stated for a group of a single byte or a
  token of fewer than four hex digits.
\<close>

theorem hex_dump_round_trip:
  assumes nm: "nm \<noteq> []" "CHR 0x0A \<notin> set nm" "CHR '':'' \<notin> set (tl nm)"
    and ls: "\<forall>(atok, groups, ascii)\<in>set (l # ls).
               4 \<le> length atok \<and> length atok \<le> 8 \<and> (\<forall>c\<in>set atok. is_hex c)
               \<and> (\<forall>g\<in>set groups. 2 \<le> length g \<and> length g \<le> 4)"
  shows "snd (process_data_line line) =
           concat (map (\<lambda>t. spec_decode_pairs (if length t mod 2 = 1 then CHR ''0'' # t else t))
                     (drop 1 (DATA_findall (split_head line))))
       \<and> ((4 \<le> length a \<and> length a \<le> 8 \<and> (\<forall>c\<in>set a. is_hex c))
            \<and> (4 \<le> length t \<and> length t \<le> 7 \<and> (\<forall>c\<in>set t. is_hex c))
            \<and> length t mod 2 = 1 \<longrightarrow>
          snd (process_data_line (CHR '' '' # a @ CHR '' '' # t)) =
            snd (process_data_line (CHR '' '' # a @ CHR '' '' # CHR ''0'' # t))
          \<and> snd (process_data_line (CHR '' '' # a @ CHR '' '' # t)) =
            spec_decode_pairs (CHR ''0'' # t))
       \<and> (\<exists>rest. parse_raw_data (spec_encode_section nm (l # ls)) =
           Inr (Some \<lparr>name = nm, start_address = int16 (fst l),
                       data = concat (map (\<lambda>(atok, groups, ascii). concat groups) (l # ls))\<rparr>,
                rest))"
proof -
  obtain atok groups ascii where l: "l = (atok, groups, ascii)" by (cases l)
  have f: "find_start (spec_encode_section nm (l # ls)) =
           Some (nm, spec_encode_data_line l # map spec_encode_data_line ls)"
    using find_start_header [OF nm, of "[CHR 0x0A]"] by (simp add: spec_encode_section_def)
  have p: "process_data_line (spec_encode_data_line l) = (int16 atok, concat groups)"
    using ls l by (simp add: process_encoded_line)
  have "0 \<le> int16 atok" using ls l by (simp add: int16_nonneg)
  then have ne: "int16 atok \<noteq> - 1" by simp
  have d: "data_loop (concat groups) (map spec_encode_data_line ls) =
           (concat groups @ concat (map (\<lambda>(atok, groups, ascii). concat groups) ls), None)"
    using ls by (intro data_loop_encoded) simp
  have "parse_raw_data (spec_encode_section nm (l # ls)) =
           Inr (Some \<lparr>name = nm, start_address = int16 (fst l),
                       data = concat (map (\<lambda>(atok, groups, ascii). concat groups) (l # ls))\<rparr>,
                if ls = [] then None else Some (map spec_encode_data_line ls))"
    using f p ne d l by (simp add: parse_raw_data_def)
  then have rt: "\<exists>rest. parse_raw_data (spec_encode_section nm (l # ls)) =
           Inr (Some \<lparr>name = nm, start_address = int16 (fst l),
                       data = concat (map (\<lambda>(atok, groups, ascii). concat groups) (l # ls))\<rparr>,
                rest)"
    by blast
  have od: "(4 \<le> length a \<and> length a \<le> 8 \<and> (\<forall>c\<in>set a. is_hex c))
            \<and> (4 \<le> length t \<and> length t \<le> 7 \<and> (\<forall>c\<in>set t. is_hex c))
            \<and> length t mod 2 = 1 \<longrightarrow>
          snd (process_data_line (CHR '' '' # a @ CHR '' '' # t)) =
            snd (process_data_line (CHR '' '' # a @ CHR '' '' # CHR ''0'' # t))
          \<and> snd (process_data_line (CHR '' '' # a @ CHR '' '' # t)) =
            spec_decode_pairs (CHR ''0'' # t)"
    using odd_token_zero_padded [of a t] by simp
  from rt od show ?thesis
    using process_data_line_tokens [of line] by blast
qed

theorem hex_dump_round_trip_witness:
  "snd (process_data_line '' 1000 abcde'') = snd (process_data_line '' 1000 0abcde'')
   \<and> snd (process_data_line '' 1000 abcde'') = [CHR 0x0A, CHR 0xBC, CHR 0xDE]
   \<and> spec_encode_section ''.rodata''
       [(''3f400000'', [''hell'', ''o w''], ''hello w''), (''3f400007'', [''orld''], ''orld'')] =
     [''Contents of section .rodata:'' @ [CHR 0x0A],
      '' 3f400000 68656c6c 6f2077  hello w'' @ [CHR 0x0A],
      '' 3f400007 6f726c64  orld'' @ [CHR 0x0A]]
   \<and> map_sum id fst (parse_raw_data
       [''Contents of section .rodata:'' @ [CHR 0x0A],
        '' 3f400000 68656c6c 6f2077  hello w'' @ [CHR 0x0A],
        '' 3f400007 6f726c64  orld'' @ [CHR 0x0A]]) =
     Inr (Some \<lparr>name = ''.rodata'', start_address = 0x3f400000, data = ''hello world''\<rparr>)"
proof -
  let ?l = "(''3f400000'', [''hell'', ''o w''], ''hello w'')"
  let ?m = "(''3f400007'', [''orld''], ''orld'')"
  have n1: "''.rodata'' \<noteq> []" and n2: "CHR 0x0A \<notin> set ''.rodata''"
    and n3: "CHR '':'' \<notin> set (tl ''.rodata'')"
    by simp_all
  have ls: "\<forall>(atok, groups, ascii)\<in>set [?l, ?m].
               4 \<le> length atok \<and> length atok \<le> 8 \<and> (\<forall>c\<in>set atok. is_hex c)
               \<and> (\<forall>g\<in>set groups. 2 \<le> length g \<and> length g \<le> 4)"
    by (simp add: is_hex_def)
  have e: "spec_encode_section ''.rodata'' [?l, ?m] =
     [''Contents of section .rodata:'' @ [CHR 0x0A],
      '' 3f400000 68656c6c 6f2077  hello w'' @ [CHR 0x0A],
      '' 3f400007 6f726c64  orld'' @ [CHR 0x0A]]"
    by code_simp
  have i: "int16 ''3f400000'' = 0x3f400000" by code_simp
  have h: "(4 \<le> length ''1000'' \<and> length ''1000'' \<le> 8 \<and> (\<forall>c\<in>set ''1000''. is_hex c))
            \<and> (4 \<le> length ''abcde'' \<and> length ''abcde'' \<le> 7
                \<and> (\<forall>c\<in>set ''abcde''. is_hex c))
            \<and> length ''abcde'' mod 2 = 1"
    by (simp add: is_hex_def)
  have dp: "spec_decode_pairs ''0abcde'' = [CHR 0x0A, CHR 0xBC, CHR 0xDE]" by code_simp
  note t = hex_dump_round_trip [OF n1 n2 n3 ls, of _ "''1000''" "''abcde''"]
  from t h have x: "snd (process_data_line (CHR '' '' # ''1000'' @ CHR '' '' # ''abcde'')) =
            snd (process_data_line (CHR '' '' # ''1000'' @ CHR '' '' # CHR ''0'' # ''abcde''))"
    and y: "snd (process_data_line (CHR '' '' # ''1000'' @ CHR '' '' # ''abcde'')) =
            spec_decode_pairs (CHR ''0'' # ''abcde'')"
    by blast+
  have o1: "snd (process_data_line '' 1000 abcde'') = snd (process_data_line '' 1000 0abcde'')"
    using x by simp
  have "snd (process_data_line '' 1000 abcde'') = spec_decode_pairs ''0abcde''"
    using y by simp
  then have o2: "snd (process_data_line '' 1000 abcde'') = [CHR 0x0A, CHR 0xBC, CHR 0xDE]"
    by (simp only: dp)
  from t obtain rest where "parse_raw_data (spec_encode_section ''.rodata'' [?l, ?m]) =
      Inr (Some \<lparr>name = ''.rodata'', start_address = int16 (fst ?l),
                  data = concat (map (\<lambda>(atok, groups, ascii). concat groups) [?l, ?m])\<rparr>, rest)"
    by blast
  then have r: "map_sum id fst (parse_raw_data
       [''Contents of section .rodata:'' @ [CHR 0x0A],
        '' 3f400000 68656c6c 6f2077  hello w'' @ [CHR 0x0A],
        '' 3f400007 6f726c64  orld'' @ [CHR 0x0A]]) =
     Inr (Some \<lparr>name = ''.rodata'', start_address = 0x3f400000, data = ''hello world''\<rparr>)"
    using e i by simp
  from o1 o2 e r show ?thesis by blast
qed

text \<open>
  C3. For a read that matches (the first section containing the address is \<open>s\<close>, and
  the \<open>sz\<close> bytes from \<open>addr\<close> on lie in its data), \<open>get_unsigned_int\<close> returns the sum
  of \<open>b[i] << (i*8)\<close> for \<open>"LE"\<close> and of \<open>b[i] << ((size-1-i)*8)\<close> for \<open>"BE"\<close>, where
  \<open>b[i]\<close> is the byte at \<open>addr + i\<close>; on the bytes 1, 2, 3, 4 a 4-byte read gives
  \<open>0x04030201\<close> and \<open>0x01020304\<close>.
\<close>

theorem get_unsigned_int_value:
  assumes pre: "\<forall>p\<in>set pre. \<not> contains p \<lparr>address = addr, section_name = sect\<rparr>"
    and s: "contains s \<lparr>address = addr, section_name = sect\<rparr>"
    and sz: "0 \<le> sz"
    and fits: "addr - start_address s + sz \<le> int (length (data s))"
  shows "get_unsigned_int \<lparr>table = map Some pre @ Some s # post\<rparr> sect addr sz ''LE'' =
           Inr (Some (\<Sum>i<nat sz.
             push_bit (i * 8) (py_ord (data s ! (nat (addr - start_address s) + i)))))
       \<and> get_unsigned_int \<lparr>table = map Some pre @ Some s # post\<rparr> sect addr sz ''BE'' =
           Inr (Some (\<Sum>i<nat sz.
             push_bit ((nat sz - 1 - i) * 8)
               (py_ord (data s ! (nat (addr - start_address s) + i)))))
       \<and> get_unsigned_int
           \<lparr>table = [Some \<lparr>name = n, start_address = a,
                             data = [CHR 0x01, CHR 0x02, CHR 0x03, CHR 0x04]\<rparr>]\<rparr>
           ''any'' a 4 ''LE'' = Inr (Some 0x04030201)
       \<and> get_unsigned_int
           \<lparr>table = [Some \<lparr>name = n, start_address = a,
                             data = [CHR 0x01, CHR 0x02, CHR 0x03, CHR 0x04]\<rparr>]\<rparr>
           ''any'' a 4 ''BE'' = Inr (Some 0x01020304)"
proof -
  define off where "off = nat (addr - start_address s)"
  define tmp where "tmp = take (nat sz) (drop off (data s))"
  from s have le: "start_address s \<le> addr" by (simp add: contains_def split: if_splits)
  have sl: "getitem_slice s (Some addr) (Some (addr + sz)) = tmp"
    unfolding tmp_def off_def using le sz by (rule slice_read)
  have len: "length tmp = nat sz"
    using fits le sz by (simp add: tmp_def off_def)
  have nth: "tmp ! i = data s ! (off + i)" if "i < nat sz" for i
    using that len by (simp add: tmp_def)
  have idx: "\<forall>i\<in>set [0..<nat sz]. i < length tmp \<and> i < nat sz"
    using len by simp
  have sumLE: "(\<Sum>i\<leftarrow>[0..<nat sz]. push_bit (i * 8) (py_ord (tmp ! i))) =
               (\<Sum>i<nat sz. push_bit (i * 8) (py_ord (data s ! (off + i))))"
    by (simp add: interv_sum_list_conv_sum_set_nat atLeast0LessThan nth)
  have sumBE: "(\<Sum>i\<leftarrow>[0..<nat sz]. push_bit ((nat sz - 1 - i) * 8) (py_ord (tmp ! i))) =
               (\<Sum>i<nat sz. push_bit ((nat sz - 1 - i) * 8) (py_ord (data s ! (off + i))))"
    by (simp add: interv_sum_list_conv_sum_set_nat atLeast0LessThan nth)
  have cLE: "combine tmp sz ''LE'' 0 (map int [0..<nat sz]) =
             Inr (\<Sum>i<nat sz. push_bit (i * 8) (py_ord (data s ! (off + i))))"
    using combine_LE [of "[0..<nat sz]" tmp sz 0] idx sumLE by simp
  have "combine tmp (int (nat sz)) ''BE'' 0 (map int [0..<nat sz]) =
             Inr (\<Sum>i<nat sz. push_bit ((nat sz - 1 - i) * 8) (py_ord (data s ! (off + i))))"
    using combine_BE [of "[0..<nat sz]" tmp "nat sz" 0] idx sumBE by simp
  then have cBE: "combine tmp sz ''BE'' 0 (map int [0..<nat sz]) =
             Inr (\<Sum>i<nat sz. push_bit ((nat sz - 1 - i) * 8) (py_ord (data s ! (off + i))))"
    using sz by simp
  have LE: "get_unsigned_int \<lparr>table = map Some pre @ Some s # post\<rparr> sect addr sz ''LE'' =
           Inr (Some (\<Sum>i<nat sz. push_bit (i * 8) (py_ord (data s ! (off + i)))))"
    using pre s sl cLE by (simp add: get_unsigned_int_def get_unsigned_int_loop_skip)
  have BE: "get_unsigned_int \<lparr>table = map Some pre @ Some s # post\<rparr> sect addr sz ''BE'' =
           Inr (Some (\<Sum>i<nat sz. push_bit ((nat sz - 1 - i) * 8) (py_ord (data s ! (off + i)))))"
    using pre s sl cBE by (simp add: get_unsigned_int_def get_unsigned_int_loop_skip)
  have upt4: "[0..<4] = [0, 1, 2, 3]" by (simp add: upt_rec)
  have ex1: "get_unsigned_int
           \<lparr>table = [Some \<lparr>name = n, start_address = a,
                             data = [CHR 0x01, CHR 0x02, CHR 0x03, CHR 0x04]\<rparr>]\<rparr>
           ''any'' a 4 ''LE'' = Inr (Some 0x04030201)"
    by (simp add: get_unsigned_int_def contains_def getitem_slice_def py_slice_def
        py_index_def py_ord_def upt4)
  have ex2: "get_unsigned_int
           \<lparr>table = [Some \<lparr>name = n, start_address = a,
                             data = [CHR 0x01, CHR 0x02, CHR 0x03, CHR 0x04]\<rparr>]\<rparr>
           ''any'' a 4 ''BE'' = Inr (Some 0x01020304)"
    by (simp add: get_unsigned_int_def contains_def getitem_slice_def py_slice_def
        py_index_def py_ord_def upt4)
  from LE BE ex1 ex2 show ?thesis unfolding off_def by blast
qed

theorem get_unsigned_int_value_witness:
  "contains
     \<lparr>name = ''.data'', start_address = 0x3ffb0000,
        data = [CHR 0x01, CHR 0x02, CHR 0x03, CHR 0x04, CHR 0x05, CHR 0x06, CHR 0x07, CHR 0x08]\<rparr>
     \<lparr>address = 0x3ffb0004, section_name = ''.data''\<rparr>
   \<and> get_unsigned_int
       \<lparr>table = [Some \<lparr>name = ''.text'', start_address = 0x400d0000, data = ''xyz''\<rparr>,
                  Some \<lparr>name = ''.data'', start_address = 0x3ffb0000,
                        data = [CHR 0x01, CHR 0x02, CHR 0x03, CHR 0x04,
                                CHR 0x05, CHR 0x06, CHR 0x07, CHR 0x08]\<rparr>]\<rparr>
       ''.data'' 0x3ffb0004 4 ''LE'' = Inr (Some 0x08070605)
   \<and> get_unsigned_int
       \<lparr>table = [Some \<lparr>name = ''.text'', start_address = 0x400d0000, data = ''xyz''\<rparr>,
                  Some \<lparr>name = ''.data'', start_address = 0x3ffb0000,
                        data = [CHR 0x01, CHR 0x02, CHR 0x03, CHR 0x04,
                                CHR 0x05, CHR 0x06, CHR 0x07, CHR 0x08]\<rparr>]\<rparr>
       ''.data'' 0x3ffb0004 4 ''BE'' = Inr (Some 0x05060708)"
proof -
  let ?t = "\<lparr>name = ''.text'', start_address = 0x400d0000, data = ''xyz''\<rparr>"
  let ?s = "\<lparr>name = ''.data'', start_address = 0x3ffb0000,
              data = [CHR 0x01, CHR 0x02, CHR 0x03, CHR 0x04,
                      CHR 0x05, CHR 0x06, CHR 0x07, CHR 0x08]\<rparr>"
  have p: "\<forall>p\<in>set [?t]. \<not> contains p \<lparr>address = 0x3ffb0004, section_name = ''.data''\<rparr>"
    by (simp add: contains_def)
  have c: "contains ?s \<lparr>address = 0x3ffb0004, section_name = ''.data''\<rparr>"
    by (simp add: contains_def)
  have z: "(0::int) \<le> 4" by simp
  have f: "0x3ffb0004 - start_address ?s + 4 \<le> int (length (data ?s))" by simp
  have four: "{..<4::nat} = {0, 1, 2, 3}" by auto
  show ?thesis
    using c get_unsigned_int_value [OF p c z f, of "[]"]
    by (simp add: four py_ord_def)
qed

text \<open>
  C4. Both queries scan the table in order and use the first section \<open>s\<close> whose
  containment test succeeds, whatever follows it: the result is that of the table
  holding \<open>s\<close> alone, and it is computed from the data of \<open>s\<close>: \<open>get_unsigned_int\<close>
  combines the slice of \<open>s\<close> at the address (a one-byte read returns the byte of \<open>s\<close>
  at the address), \<open>get_string\<close> returns the data of \<open>s\<close> from the address up to the
  first NUL. The witness is the scenario of two overlapping sections, A over
  \<open>[0x100, 0x110)\<close> before B over \<open>[0x108, 0x118)\<close>, queried at \<open>0x109\<close>: the byte
  returned is A's \<open>9\<close> (0x39), not B's \<open>h\<close>.
\<close>

theorem first_match_wins:
  assumes pre: "\<forall>p\<in>set pre. \<not> contains p \<lparr>address = addr, section_name = sect\<rparr>"
    and s: "contains s \<lparr>address = addr, section_name = sect\<rparr>"
  shows "get_unsigned_int \<lparr>table = map Some pre @ Some s # post\<rparr> sect addr sz endian =
           get_unsigned_int \<lparr>table = [Some s]\<rparr> sect addr sz endian
       \<and> get_string \<lparr>table = map Some pre @ Some s # post\<rparr> sect addr =
           get_string \<lparr>table = [Some s]\<rparr> sect addr
       \<and> get_unsigned_int \<lparr>table = map Some pre @ Some s # post\<rparr> sect addr sz endian =
           (case combine (getitem_slice s (Some addr) (Some (addr + sz))) sz endian 0
                   (map int [0..<nat sz]) of
              Inl e \<Rightarrow> Inl e
            | Inr v \<Rightarrow> Inr (Some v))
       \<and> get_unsigned_int \<lparr>table = map Some pre @ Some s # post\<rparr> sect addr 1 ''LE'' =
           Inr (Some (py_ord (data s ! nat (addr - start_address s))))
       \<and> get_unsigned_int \<lparr>table = map Some pre @ Some s # post\<rparr> sect addr 1 ''BE'' =
           Inr (Some (py_ord (data s ! nat (addr - start_address s))))
       \<and> get_string \<lparr>table = map Some pre @ Some s # post\<rparr> sect addr =
           Inr (Some (takeWhile (\<lambda>c. c \<noteq> CHR 0x00)
                        (drop (nat (addr - start_address s)) (data s))))"
proof -
  let ?T = "\<lparr>table = map Some pre @ Some s # post\<rparr>"
  define off where "off = nat (addr - start_address s)"
  from s have le: "start_address s \<le> addr"
    and lt: "addr < start_address s + int (length (data s))"
    by (simp_all add: contains_def split: if_splits)
  have inside: "off < length (data s)"
    using le lt by (simp add: off_def)
  have a: "get_unsigned_int ?T sect addr sz endian =
           get_unsigned_int \<lparr>table = [Some s]\<rparr> sect addr sz endian"
    using pre s by (simp add: get_unsigned_int_def get_unsigned_int_loop_skip)
  have b: "get_string ?T sect addr = get_string \<lparr>table = [Some s]\<rparr> sect addr"
    using pre s by (simp add: get_string_def get_string_loop_skip)
  have c: "get_unsigned_int ?T sect addr sz endian =
           (case combine (getitem_slice s (Some addr) (Some (addr + sz))) sz endian 0
                   (map int [0..<nat sz]) of
              Inl e \<Rightarrow> Inl e
            | Inr v \<Rightarrow> Inr (Some v))" for sz endian
    using pre s by (simp add: get_unsigned_int_def get_unsigned_int_loop_skip)
  have one: "getitem_slice s (Some addr) (Some (addr + 1)) = [data s ! off]"
    using slice_read [OF le, of 1] inside
    by (simp add: off_def take_Suc_conv_app_nth hd_drop_conv_nth take_Suc)
  have d: "get_unsigned_int ?T sect addr 1 ''LE'' = Inr (Some (py_ord (data s ! off)))"
    using combine_LE [of "[0]" "[data s ! off]" 1 0]
    by (simp add: c one del: combine.simps)
  have e: "get_unsigned_int ?T sect addr 1 ''BE'' = Inr (Some (py_ord (data s ! off)))"
    using combine_BE [of "[0]" "[data s ! off]" 1 0]
    by (simp add: c one del: combine.simps)
  have f: "get_string ?T sect addr =
           Inr (Some (takeWhile (\<lambda>c. c \<noteq> CHR 0x00) (drop off (data s))))"
    using pre s
    by (simp add: get_string_def get_string_loop_skip slice_tail [OF le] cut_at_nul_whole
        off_def)
  from a b c d e f show ?thesis unfolding off_def by blast
qed

theorem first_match_wins_witness:
  "contains \<lparr>name = ''A'', start_address = 0x100, data = ''0123456789abcdef''\<rparr>
     \<lparr>address = 0x109, section_name = ''any''\<rparr>
   \<and> contains \<lparr>name = ''B'', start_address = 0x108, data = ''ghijklmnopqrstuv''\<rparr>
     \<lparr>address = 0x109, section_name = ''any''\<rparr>
   \<and> get_unsigned_int
       \<lparr>table = [Some \<lparr>name = ''A'', start_address = 0x100, data = ''0123456789abcdef''\<rparr>,
                  Some \<lparr>name = ''B'', start_address = 0x108, data = ''ghijklmnopqrstuv''\<rparr>]\<rparr>
       ''any'' 0x109 1 ''LE'' = Inr (Some 0x39)
   \<and> get_string
       \<lparr>table = [Some \<lparr>name = ''A'', start_address = 0x100, data = ''0123456789abcdef''\<rparr>,
                  Some \<lparr>name = ''B'', start_address = 0x108, data = ''ghijklmnopqrstuv''\<rparr>]\<rparr>
       ''any'' 0x109 = Inr (Some ''9abcdef'')"
proof -
  let ?A = "\<lparr>name = ''A'', start_address = 0x100, data = ''0123456789abcdef''\<rparr>"
  let ?B = "\<lparr>name = ''B'', start_address = 0x108, data = ''ghijklmnopqrstuv''\<rparr>"
  have p: "\<forall>p\<in>set []. \<not> contains p \<lparr>address = 0x109, section_name = ''any''\<rparr>"
    by simp
  have a: "contains ?A \<lparr>address = 0x109, section_name = ''any''\<rparr>"
    by (simp add: contains_def)
  have b: "contains ?B \<lparr>address = 0x109, section_name = ''any''\<rparr>"
    by (simp add: contains_def)
  note t = first_match_wins [OF p a, of "[Some ?B]" 1 "''LE''"]
  from t have "get_unsigned_int \<lparr>table = map Some [] @ Some ?A # [Some ?B]\<rparr> ''any'' 0x109 1 ''LE'' =
      Inr (Some (py_ord (data ?A ! nat (0x109 - start_address ?A))))"
    by (elim conjE)
  then have i: "get_unsigned_int \<lparr>table = [Some ?A, Some ?B]\<rparr> ''any'' 0x109 1 ''LE'' =
      Inr (Some 0x39)"
    by (simp add: py_ord_def)
  from t have "get_string \<lparr>table = map Some [] @ Some ?A # [Some ?B]\<rparr> ''any'' 0x109 =
      Inr (Some (takeWhile (\<lambda>c. c \<noteq> CHR 0x00)
                   (drop (nat (0x109 - start_address ?A)) (data ?A))))"
    by (elim conjE)
  then have g: "get_string \<lparr>table = [Some ?A, Some ?B]\<rparr> ''any'' 0x109 = Inr (Some ''9abcdef'')"
    by simp
  from a b i g show ?thesis by blast
qed

text \<open>
  C5. The containment test of a section holds if and only if the queried name is
  \<open>"any"\<close> or the section's name, and the address lies in
  \<open>[start_address, start_address + len(data))\<close>.
\<close>

theorem contains_iff:
  "contains s \<lparr>address = a, section_name = n\<rparr> \<longleftrightarrow>
     (n = ''any'' \<or> n = name s)
     \<and> start_address s \<le> a \<and> a < start_address s + int (length (data s))"
  by (auto simp: contains_def)

theorem contains_iff_witness:
  "contains \<lparr>name = ''.data'', start_address = 0x3ffb0000, data = ''abcd''\<rparr>
     \<lparr>address = 0x3ffb0003, section_name = ''any''\<rparr>
   \<and> \<not> contains \<lparr>name = ''.data'', start_address = 0x3ffb0000, data = ''abcd''\<rparr>
     \<lparr>address = 0x3ffb0004, section_name = ''.data''\<rparr>
   \<and> \<not> contains \<lparr>name = ''.data'', start_address = 0x3ffb0000, data = ''abcd''\<rparr>
     \<lparr>address = 0x3ffb0000, section_name = ''.text''\<rparr>"
  using contains_iff [of "\<lparr>name = ''.data'', start_address = 0x3ffb0000, data = ''abcd''\<rparr>"
      "0x3ffb0003" "''any''"]
    contains_iff [of "\<lparr>name = ''.data'', start_address = 0x3ffb0000, data = ''abcd''\<rparr>"
      "0x3ffb0004" "''.data''"]
    contains_iff [of "\<lparr>name = ''.data'', start_address = 0x3ffb0000, data = ''abcd''\<rparr>"
      "0x3ffb0000" "''.text''"]
  by simp

text \<open>
  C6. A matching \<open>get_string\<close> returns the bytes of the first matching section from the
  queried address to the end of its data, cut just before the first NUL byte if there is
  one; on the data \<open>hello NUL world\<close>, queried at the start address, it returns \<open>hello\<close>.
\<close>

theorem get_string_value:
  assumes pre: "\<forall>p\<in>set pre. \<not> contains p \<lparr>address = addr, section_name = sect\<rparr>"
    and s: "contains s \<lparr>address = addr, section_name = sect\<rparr>"
  shows "get_string \<lparr>table = map Some pre @ Some s # post\<rparr> sect addr =
           Inr (Some (takeWhile (\<lambda>c. c \<noteq> CHR 0x00)
                        (drop (nat (addr - start_address s)) (data s))))
       \<and> get_string
           \<lparr>table = [Some \<lparr>name = n, start_address = a,
                             data = ''hello'' @ [CHR 0x00] @ ''world''\<rparr>]\<rparr>
           ''any'' a = Inr (Some ''hello'')"
proof -
  from s have le: "start_address s \<le> addr" by (simp add: contains_def split: if_splits)
  have "get_string \<lparr>table = map Some pre @ Some s # post\<rparr> sect addr =
           Inr (Some (takeWhile (\<lambda>c. c \<noteq> CHR 0x00)
                        (drop (nat (addr - start_address s)) (data s))))"
    using pre s
    by (simp add: get_string_def get_string_loop_skip slice_tail [OF le] cut_at_nul_whole)
  moreover have "get_string
           \<lparr>table = [Some \<lparr>name = n, start_address = a,
                             data = ''hello'' @ [CHR 0x00] @ ''world''\<rparr>]\<rparr>
           ''any'' a = Inr (Some ''hello'')"
    by (simp add: get_string_def contains_def slice_tail cut_at_nul_whole)
  ultimately show ?thesis by blast
qed

theorem get_string_value_witness:
  "contains \<lparr>name = ''.rodata'', start_address = 0x3f400000, data = ''ab'' @ [CHR 0x00] @ ''cd''\<rparr>
     \<lparr>address = 0x3f400001, section_name = ''.rodata''\<rparr>
   \<and> get_string
       \<lparr>table = [Some \<lparr>name = ''.text'', start_address = 0x400d0000, data = ''xyz''\<rparr>,
                  Some \<lparr>name = ''.rodata'', start_address = 0x3f400000,
                        data = ''ab'' @ [CHR 0x00] @ ''cd''\<rparr>]\<rparr>
       ''.rodata'' 0x3f400001 = Inr (Some ''b'')"
proof -
  have p: "\<forall>p\<in>set [\<lparr>name = ''.text'', start_address = 0x400d0000, data = ''xyz''\<rparr>].
             \<not> contains p \<lparr>address = 0x3f400001, section_name = ''.rodata''\<rparr>"
    by (simp add: contains_def)
  have c: "contains \<lparr>name = ''.rodata'', start_address = 0x3f400000, data = ''ab'' @ [CHR 0x00] @ ''cd''\<rparr>
     \<lparr>address = 0x3f400001, section_name = ''.rodata''\<rparr>"
    by (simp add: contains_def)
  show ?thesis
    using c get_string_value [OF p c, of "[]"] by simp
qed

text \<open>
  C7. When no section's containment test succeeds, in particular when the address lies
  outside the range of every section, and on the empty table that the constructor builds
  from no lines, \<open>get_unsigned_int\<close> and \<open>get_string\<close> both return \<open>None\<close>.
\<close>

theorem no_match_none:
  "((\<forall>p\<in>set secs. \<not> contains p \<lparr>address = addr, section_name = sect\<rparr>) \<longrightarrow>
      get_unsigned_int \<lparr>table = map Some secs\<rparr> sect addr sz endian = Inr None
      \<and> get_string \<lparr>table = map Some secs\<rparr> sect addr = Inr None)
   \<and> ((\<forall>p\<in>set secs. addr < start_address p
                       \<or> start_address p + int (length (data p)) \<le> addr) \<longrightarrow>
      get_unsigned_int \<lparr>table = map Some secs\<rparr> sect addr sz endian = Inr None
      \<and> get_string \<lparr>table = map Some secs\<rparr> sect addr = Inr None)
   \<and> SectionTable_init [] = Inr \<lparr>table = []\<rparr>
   \<and> get_unsigned_int \<lparr>table = []\<rparr> sect addr sz endian = Inr None
   \<and> get_string \<lparr>table = []\<rparr> sect addr = Inr None"
proof -
  have a: "get_unsigned_int \<lparr>table = map Some secs\<rparr> sect addr sz endian = Inr None
      \<and> get_string \<lparr>table = map Some secs\<rparr> sect addr = Inr None"
    if "\<forall>p\<in>set secs. \<not> contains p \<lparr>address = addr, section_name = sect\<rparr>" for secs
    using get_unsigned_int_loop_skip [OF that, of "[]"] get_string_loop_skip [OF that, of "[]"]
    by (simp add: get_unsigned_int_def get_string_def)
  have b: "\<forall>p\<in>set secs. \<not> contains p \<lparr>address = addr, section_name = sect\<rparr>"
    if "\<forall>p\<in>set secs. addr < start_address p
                       \<or> start_address p + int (length (data p)) \<le> addr"
    using that by (auto simp: contains_def)
  have c: "SectionTable_init [] = Inr \<lparr>table = []\<rparr>"
    by (simp add: SectionTable_init_def init_loop.simps [of "[]" "[]"])
  have d: "get_unsigned_int \<lparr>table = []\<rparr> sect addr sz endian = Inr None
   \<and> get_string \<lparr>table = []\<rparr> sect addr = Inr None"
    by (simp add: get_unsigned_int_def get_string_def)
  from a b c d show ?thesis by blast
qed

theorem no_match_none_witness:
  "\<not> contains \<lparr>name = ''.data'', start_address = 0x3ffb0000, data = ''abcd''\<rparr>
       \<lparr>address = 0x3ffb0004, section_name = ''any''\<rparr>
   \<and> get_unsigned_int
       \<lparr>table = [Some \<lparr>name = ''.data'', start_address = 0x3ffb0000, data = ''abcd''\<rparr>]\<rparr>
       ''any'' 0x3ffb0004 4 ''LE'' = Inr None
   \<and> get_string
       \<lparr>table = [Some \<lparr>name = ''.data'', start_address = 0x3ffb0000, data = ''abcd''\<rparr>]\<rparr>
       ''any'' 0x3ffb0004 = Inr None"
proof -
  let ?s = "\<lparr>name = ''.data'', start_address = 0x3ffb0000, data = ''abcd''\<rparr>"
  have a: "\<forall>p\<in>set [?s]. \<not> contains p \<lparr>address = 0x3ffb0004, section_name = ''any''\<rparr>"
    by (simp add: contains_def)
  have b: "\<forall>p\<in>set [?s].
        0x3ffb0004 < start_address p \<or> start_address p + int (length (data p)) \<le> 0x3ffb0004"
    by simp
  show ?thesis
    using a b no_match_none [of "[?s]" "0x3ffb0004" "''any''" 4 "''LE''"]
    by simp
qed

text \<open>
  C8, as stated, fails: with an \<open>endian\<close> that is neither \<open>"LE"\<close> nor \<open>"BE"\<close> the call
  returns \<open>None\<close> on a table where nothing matches, and 0 on a match with size 0.
\<close>

theorem invalid_endian_counterexample:
  "get_unsigned_int \<lparr>table = []\<rparr> ''any'' 0 4 ''XX'' = Inr None
   \<and> get_unsigned_int
       \<lparr>table = [Some \<lparr>name = ''.data'', start_address = 0, data = ''abcd''\<rparr>]\<rparr>
       ''any'' 0 0 ''XX'' = Inr (Some 0)"
  by (simp add: get_unsigned_int_def contains_def combine_invalid_endian)

text \<open>
  C8 (amended). With an \<open>endian\<close> that is neither \<open>"LE"\<close> nor \<open>"BE"\<close>,
  \<open>get_unsigned_int\<close> fails its assertion exactly when some section matches and the size
  is at least 1 (the argument is examined only inside the loop over the bytes); it
  returns \<open>None\<close> when no section matches and 0 on a match with a size below 1.
\<close>

theorem invalid_endian_behaviour:
  assumes "endian \<noteq> ''LE''" and "endian \<noteq> ''BE''"
  shows "get_unsigned_int \<lparr>table = map Some secs\<rparr> sect addr sz endian =
     (if \<exists>p\<in>set secs. contains p \<lparr>address = addr, section_name = sect\<rparr>
      then (if 1 \<le> sz then Inl AssertionError else Inr (Some 0))
      else Inr None)"
  using assms by (simp add: get_unsigned_int_def get_unsigned_int_loop_invalid_endian)

theorem invalid_endian_behaviour_witness:
  "''XX'' \<noteq> ''LE'' \<and> ''XX'' \<noteq> ''BE''
   \<and> get_unsigned_int
       \<lparr>table = [Some \<lparr>name = ''.data'', start_address = 0x3ffb0000, data = ''abcd''\<rparr>]\<rparr>
       ''.data'' 0x3ffb0000 4 ''XX'' = Inl AssertionError"
proof -
  have a: "''XX'' \<noteq> ''LE''" and b: "''XX'' \<noteq> ''BE''" by simp_all
  show ?thesis
    using invalid_endian_behaviour [OF a b,
        of "[\<lparr>name = ''.data'', start_address = 0x3ffb0000, data = ''abcd''\<rparr>]"
           "''.data''" "0x3ffb0000" 4]
    by (simp add: contains_def)
qed

text \<open>
  C9, as stated, fails for a call whose \<open>endian\<close> is neither \<open>"LE"\<close> nor \<open>"BE"\<close>: the
  assertion fails at the first byte, before any index is out of range.
\<close>

theorem short_read_counterexample:
  "contains \<lparr>name = ''.data'', start_address = 0, data = ''ab''\<rparr>
     \<lparr>address = 0, section_name = ''any''\<rparr>
   \<and> 0 - start_address \<lparr>name = ''.data'', start_address = 0, data = ''ab''\<rparr> + 4
       > int (length (data \<lparr>name = ''.data'', start_address = 0, data = ''ab''\<rparr>))
   \<and> get_unsigned_int
       \<lparr>table = [Some \<lparr>name = ''.data'', start_address = 0, data = ''ab''\<rparr>]\<rparr>
       ''any'' 0 4 ''XX'' = Inl AssertionError"
  by (simp add: get_unsigned_int_def contains_def combine_invalid_endian)

text \<open>
  C9 (amended). When the first matching section contains the address but its data ends
  before \<open>address + size\<close>, \<open>get_unsigned_int\<close> returns neither \<open>None\<close> nor an integer:
  with \<open>endian\<close> \<open>"LE"\<close> or \<open>"BE"\<close> it fails with an out-of-range index while combining
  the bytes, with any other \<open>endian\<close> it fails the assertion.
\<close>

theorem short_read_fails:
  assumes pre: "\<forall>p\<in>set pre. \<not> contains p \<lparr>address = addr, section_name = sect\<rparr>"
    and s: "contains s \<lparr>address = addr, section_name = sect\<rparr>"
    and short: "int (length (data s)) < addr - start_address s + sz"
  shows "get_unsigned_int \<lparr>table = map Some pre @ Some s # post\<rparr> sect addr sz endian =
     (if endian = ''LE'' \<or> endian = ''BE'' then Inl IndexError else Inl AssertionError)"
proof -
  define tmp where "tmp = getitem_slice s (Some addr) (Some (addr + sz))"
  from s have le: "start_address s \<le> addr"
    and lt: "addr < start_address s + int (length (data s))"
    by (simp_all add: contains_def split: if_splits)
  have len: "length tmp < nat sz"
    unfolding tmp_def using le short lt by (rule slice_short)
  have c: "combine tmp sz endian 0 (map int [0..<nat sz]) =
     (if endian = ''LE'' \<or> endian = ''BE'' then Inl IndexError else Inl AssertionError)"
  proof (cases "endian = ''LE'' \<or> endian = ''BE''")
    case True
    have "length tmp \<in> set [0..<nat sz]" using len by simp
    with True show ?thesis using combine_short [of endian "length tmp"] by simp
  next
    case False
    moreover have "map int [0..<nat sz] \<noteq> []" using len by simp
    ultimately show ?thesis by (simp add: combine_invalid_endian)
  qed
  show ?thesis
    using pre s c
    by (simp add: get_unsigned_int_def get_unsigned_int_loop_skip tmp_def del: combine.simps)
qed

theorem short_read_fails_witness:
  "contains \<lparr>name = ''.data'', start_address = 0x3ffb0000, data = ''abcdef''\<rparr>
     \<lparr>address = 0x3ffb0004, section_name = ''any''\<rparr>
   \<and> get_unsigned_int
       \<lparr>table = [Some \<lparr>name = ''.data'', start_address = 0x3ffb0000, data = ''abcdef''\<rparr>]\<rparr>
       ''any'' 0x3ffb0004 4 ''LE'' = Inl IndexError
   \<and> get_unsigned_int
       \<lparr>table = [Some \<lparr>name = ''.data'', start_address = 0x3ffb0000, data = ''abcdef''\<rparr>]\<rparr>
       ''any'' 0x3ffb0004 4 ''BE'' = Inl IndexError"
proof -
  let ?s = "\<lparr>name = ''.data'', start_address = 0x3ffb0000, data = ''abcdef''\<rparr>"
  have p: "\<forall>p\<in>set []. \<not> contains p \<lparr>address = 0x3ffb0004, section_name = ''any''\<rparr>"
    by simp
  have c: "contains ?s \<lparr>address = 0x3ffb0004, section_name = ''any''\<rparr>"
    by (simp add: contains_def)
  have sh: "int (length (data ?s)) < 0x3ffb0004 - start_address ?s + 4"
    by simp
  show ?thesis
    using c short_read_fails [OF p c sh, of "[]" "''LE''"]
      short_read_fails [OF p c sh, of "[]" "''BE''"]
    by simp
qed

text \<open>
  C10. A section with empty data satisfies the containment test for no key, so removing
  such an entry from a table changes the result of no query; the placeholder that
  \<open>parse_raw_data\<close> constructs when there is no header line, or when the first line behind
  the header yields no address, is such a section (start address 0, no data).
\<close>

theorem empty_section_never_matches:
  assumes "data s = []"
  shows "\<not> contains s k
       \<and> get_unsigned_int \<lparr>table = pre @ Some s # post\<rparr> sect addr sz endian =
           get_unsigned_int \<lparr>table = pre @ post\<rparr> sect addr sz endian
       \<and> get_string \<lparr>table = pre @ Some s # post\<rparr> sect addr =
           get_string \<lparr>table = pre @ post\<rparr> sect addr
       \<and> (find_start raw_data = None \<longrightarrow>
            parse_raw_data raw_data =
              Inr (Some \<lparr>name = '''', start_address = 0, data = ''''\<rparr>, None))
       \<and> (find_start raw_data = Some (g, first # rest)
              \<and> fst (process_data_line first) = - 1 \<longrightarrow>
            parse_raw_data raw_data =
              Inr (Some \<lparr>name = g, start_address = 0, data = ''''\<rparr>, None))"
  using assms
  by (simp add: empty_not_contains get_unsigned_int_def get_string_def
      get_unsigned_int_loop_drop get_string_loop_drop parse_no_header parse_bad_first_line)

theorem empty_section_never_matches_witness:
  "data \<lparr>name = '''', start_address = 0, data = ''''\<rparr> = []
   \<and> find_start [''junk''] = None
   \<and> parse_raw_data [''junk''] =
       Inr (Some \<lparr>name = '''', start_address = 0, data = ''''\<rparr>, None)
   \<and> find_start [''Contents of section .text:'', ''zz''] = Some (''.text'', [''zz''])
   \<and> fst (process_data_line ''zz'') = - 1
   \<and> parse_raw_data [''Contents of section .text:'', ''zz''] =
       Inr (Some \<lparr>name = ''.text'', start_address = 0, data = ''''\<rparr>, None)
   \<and> get_string
       \<lparr>table = [Some \<lparr>name = '''', start_address = 0, data = ''''\<rparr>,
                  Some \<lparr>name = ''.data'', start_address = 0, data = ''abcd''\<rparr>]\<rparr>
       ''any'' 0 = Inr (Some ''abcd'')"
proof -
  let ?e = "\<lparr>name = '''', start_address = 0, data = ''''\<rparr>"
  let ?d = "\<lparr>name = ''.data'', start_address = 0, data = ''abcd''\<rparr>"
  have d: "data ?e = []" by simp
  have f1: "find_start [''junk''] = None" by code_simp
  have f2: "find_start [''Contents of section .text:'', ''zz''] = Some (''.text'', [''zz''])"
    by code_simp
  have f3: "fst (process_data_line ''zz'') = - 1" by code_simp
  have g: "get_string \<lparr>table = [Some ?d]\<rparr> ''any'' 0 = Inr (Some ''abcd'')"
    by (simp add: get_string_def contains_def slice_tail cut_at_nul_whole)
  show ?thesis
    using d f1 f2 f3 g
      empty_section_never_matches [OF d, of _ "[]" "[Some ?d]" "''any''" 0 _ _ "[''junk'']"]
      empty_section_never_matches [OF d, of _ "[]" "[]" _ _ _ _
        "[''Contents of section .text:'', ''zz'']" "''.text''" "''zz''" "[]"]
    by simp
qed

end
